theory Spec2Isabelle
  imports Main
begin

section \<open>The panel manager context of \<open>src/index.tsx\<close>\<close>

text \<open>
  The provider component \<open>PanelManagerContextProvider\<close> owns four pieces of state: the
  registry object \<open>panelRegistry\<close>, the array \<open>panelExecutorStack\<close>, the element
  \<open>closingPanel\<close> and the array \<open>panels\<close>. Its callbacks \<open>close\<close>, \<open>dismiss\<close>,
  \<open>open\<close> and \<open>register\<close> are modelled as functions on a record of that state; every
  state updater passed to a \<open>setState\<close> function is applied at once, and the effect that
  recomputes \<open>panels\<close> runs after each update.

  Promises live in a store indexed by allocation order. The registry is the finite map
  that its type \<open>Record<Key, OpenPanelFunction<unknown>>\<close> declares; keys that name a
  member of \<open>Object.prototype\<close> are outside the model. Producers
  (\<open>RegisterPanelFunction\<close>) are pure functions from the props they receive to an element.
\<close>

subsection \<open>Values\<close>

text \<open>
  The values a panel may pass to \<open>close\<close>. Numbers are restricted to the integers and
  \<open>NaN\<close>. \<open>JThenable\<close> is a reference to an object whose \<open>then\<close> property is callable (a
  promise of some other origin, or any other thenable); \<open>JObj\<close> is a reference to any
  other object, array or function. The promises of the store below are not among the
  values.
\<close>

datatype jsval =
    JUndefined
  | JNull
  | JBool bool
  | JNum int
  | JNaN
  | JStr string
  | JObj nat
  | JThenable nat

text \<open>JavaScript's \<open>ToBoolean\<close>.\<close>

fun truthy :: "jsval \<Rightarrow> bool" where
  "truthy JUndefined = False"
| "truthy JNull = False"
| "truthy (JBool b) = b"
| "truthy (JNum n) = (n \<noteq> 0)"
| "truthy JNaN = False"
| "truthy (JStr s) = (s \<noteq> [])"
| "truthy (JObj r) = True"
| "truthy (JThenable r) = True"

text \<open>The expression \<open>result || null\<close> of \<open>close\<close>.\<close>

definition or_null :: "jsval \<Rightarrow> jsval" where
  "or_null result = (if truthy result then result else JNull)"

subsection \<open>Promises\<close>

text \<open>
  A promise is \<open>Pending\<close> until one of its resolving functions is called. \<open>Resolved v\<close>
  says that \<open>resolve\<close> was called with \<open>v\<close>, which is what the language definition calls a
  resolved promise: it is settled, or locked in to follow a thenable. What the awaiting
  caller gets is the \<open>fate\<close> of the promise. A value that is not a thenable fulfils the
  promise with that value. A thenable is adopted: the promise follows it, and is later
  fulfilled or rejected as the thenable decides, or never.
\<close>

datatype promise = Pending | Resolved jsval | Rejected




subsection \<open>Elements and the props handed to a producer\<close>

text \<open>
  The two functions a producer receives. \<open>open\<close> and \<open>register\<close> wrap \<open>close\<close> in a fresh
  arrow function \<open>(value) => close(value)\<close>; the tag records which call allocated the
  wrapper (the promise of that \<open>open\<close> call, or none for the placeholder of \<open>register\<close>).
  The wrapper's body does not mention the executor, so the tag plays no part when the
  wrapper is called. \<open>dismiss\<close> is passed as it is.
\<close>

datatype callback = CloseFn "nat option" | DismissFn

record managed_panel =
  mp_close :: callback
  mp_dismiss :: callback
  mp_props :: jsval

record react_element =
  el_type :: string
  key :: "string option"
  el_props :: managed_panel

type_synonym register_panel_function = "managed_panel \<Rightarrow> react_element"

text \<open>
  The arrow function \<open>(props) => open(panel.key, registerPanelFunction, props)\<close> built by
  \<open>register\<close>: a reference (its allocation number) and the two captured variables.
\<close>

datatype open_panel_function =
  OpenPanelFunction (fn_ref: nat) (fn_key: string) (fn_producer: register_panel_function)

subsection \<open>State\<close>

record panel_executor =
  panel :: react_element
  executor :: nat

record state =
  panelRegistry :: "string \<rightharpoonup> open_panel_function"
  panelExecutorStack :: "panel_executor list"
  closingPanel :: "react_element option"
  panels :: "react_element option list"
  promises :: "promise list"
  settled :: "(nat \<times> jsval) list"
  closures :: nat

text \<open>
  \<open>promises\<close> is the store of every promise created by \<open>open\<close>; an executor is the index
  of its promise. \<open>settled\<close> lists the calls of \<open>resolve\<close> that took effect, in the
  order they happened (for a value that is not a thenable, the order in which the
  promises are settled and their reactions queued). \<open>closures\<close> counts the open
  functions allocated so far. \<open>closingPanel\<close> starts as \<open>undefined\<close>, written \<open>None\<close>.
\<close>

definition initial_state :: state where
  "initial_state =
     \<lparr>panelRegistry = Map.empty, panelExecutorStack = [], closingPanel = None,
      panels = [], promises = [], settled = [], closures = 0\<rparr>"

datatype error = TypeError | MissingPanelKeyError

subsection \<open>The effect that derives \<open>panels\<close>\<close>

definition activePanels :: "state \<Rightarrow> react_element option list" where
  "activePanels s =
     (if length (panelExecutorStack s) \<noteq> 0
      then map (\<lambda>keyExecutor. Some (panel keyExecutor)) (panelExecutorStack s)
      else [closingPanel s])"

definition useEffect :: "state \<Rightarrow> state" where
  "useEffect s = s\<lparr>panels := activePanels s\<rparr>"

subsection \<open>\<open>executor.resolve\<close>\<close>

text \<open>
  The resolving function of a promise takes effect once: on a promise that was resolved
  before, with a thenable or with any other value, it does nothing.
\<close>

definition resolve :: "nat \<Rightarrow> jsval \<Rightarrow> state \<Rightarrow> state" where
  "resolve p v s =
     (if p < length (promises s) \<and> promises s ! p = Pending
      then s\<lparr>promises := (promises s)[p := Resolved v], settled := settled s @ [(p, v)]\<rparr>
      else s)"

subsection \<open>\<open>close\<close>, \<open>dismiss\<close>, \<open>open\<close>, \<open>register\<close>\<close>

text \<open>
  \<open>stack.pop()\<close> of an empty array is \<open>undefined\<close>, and reading \<open>.executor\<close> of it throws a
  \<open>TypeError\<close>.
\<close>

definition close :: "jsval \<Rightarrow> state \<Rightarrow> error + state" where
  "close result s =
     (if panelExecutorStack s = [] then Inl TypeError
      else
        let keyExecutor = last (panelExecutorStack s);
            stack = butlast (panelExecutorStack s);
            s' = resolve (executor keyExecutor) (or_null result) s
        in Inr (s'\<lparr>panelExecutorStack := stack\<rparr>))"

definition dismiss :: "state \<Rightarrow> state" where
  "dismiss s =
     (fold (\<lambda>keyExecutor. resolve (executor keyExecutor) JNull) (panelExecutorStack s) s)
       \<lparr>panelExecutorStack := []\<rparr>"

text \<open>\<open>open\<close> returns the new promise together with the state.\<close>

definition "open" :: "string \<Rightarrow> register_panel_function \<Rightarrow> jsval \<Rightarrow> state \<Rightarrow> nat \<times> state" where
  "open k registerPanelFunction props s =
     (let result = length (promises s);
          s1 = s\<lparr>promises := promises s @ [Pending]\<rparr>;
          pnl = registerPanelFunction
                  \<lparr>mp_close = CloseFn (Some result), mp_dismiss = DismissFn, mp_props = props\<rparr>;
          panelExecutor = \<lparr>panel = pnl, executor = result\<rparr>;
          s2 = (if length (panelExecutorStack s1) = 0 then s1\<lparr>closingPanel := Some pnl\<rparr> else s1)
      in (result, s2\<lparr>panelExecutorStack := panelExecutorStack s2 @ [panelExecutor]\<rparr>))"

text \<open>
  \<open>register\<close> returns what it returns or throws, together with the state it leaves. The
  test \<open>!panel.key\<close> rejects a missing key and the empty string alike. The placeholder
  props are \<open>{}\<close>, an object.
\<close>

definition placeholder :: managed_panel where
  "placeholder = \<lparr>mp_close = CloseFn None, mp_dismiss = DismissFn, mp_props = JObj 0\<rparr>"

definition register :: "register_panel_function \<Rightarrow> state \<Rightarrow> (error + open_panel_function) \<times> state" where
  "register registerPanelFunction s =
     (let pnl = registerPanelFunction placeholder in
      case key pnl of
        None \<Rightarrow> (Inl MissingPanelKeyError, s)
      | Some k \<Rightarrow>
          if k = [] then (Inl MissingPanelKeyError, s)
          else
            (case panelRegistry s k of
               Some openPanelFunction \<Rightarrow>
                 (Inr openPanelFunction,
                  s\<lparr>panelRegistry := (panelRegistry s)(k \<mapsto> openPanelFunction)\<rparr>)
             | None \<Rightarrow>
                 let openPanelFunction = OpenPanelFunction (closures s) k registerPanelFunction
                 in (Inr openPanelFunction,
                     s\<lparr>panelRegistry := (panelRegistry s)(k \<mapsto> openPanelFunction),
                       closures := Suc (closures s)\<rparr>)))"

subsection \<open>Calling the functions handed out\<close>

text \<open>Calling an open function returned by \<open>register\<close>.\<close>

fun call_open :: "open_panel_function \<Rightarrow> jsval \<Rightarrow> state \<Rightarrow> nat \<times> state" where
  "call_open (OpenPanelFunction r k registerPanelFunction) props s =
     open k registerPanelFunction props s"

text \<open>Calling, with an argument, a function that a producer received.\<close>

fun call :: "callback \<Rightarrow> jsval \<Rightarrow> state \<Rightarrow> error + state" where
  "call (CloseFn tag) v s = close v s"
| "call DismissFn v s = Inr (dismiss s)"

subsection \<open>Events\<close>

text \<open>
  What can happen to a mounted provider: a component registers a producer, calls an open
  function, or calls one of the functions its producer received; or a consumer of the
  context calls \<open>dismiss\<close>. The effect runs after each.
\<close>

datatype event =
    Register register_panel_function
  | Open open_panel_function jsval
  | Call callback jsval
  | Dismiss

fun step :: "event \<Rightarrow> state \<Rightarrow> error + state" where
  "step (Register f) s =
     (case register f s of
        (Inl e, s') \<Rightarrow> Inl e
      | (Inr g, s') \<Rightarrow> Inr (useEffect s'))"
| "step (Open g props) s = Inr (useEffect (snd (call_open g props s)))"
| "step (Call c v) s = (case call c v s of Inl e \<Rightarrow> Inl e | Inr s' \<Rightarrow> Inr (useEffect s'))"
| "step Dismiss s = Inr (useEffect (dismiss s))"

fun run :: "event list \<Rightarrow> state \<Rightarrow> error + state" where
  "run [] s = Inr s"
| "run (e # es) s = (case step e s of Inl err \<Rightarrow> Inl err | Inr s' \<Rightarrow> run es s')"

text \<open>The provider after its first render and effect.\<close>

definition mounted :: state where
  "mounted = useEffect initial_state"

subsection \<open>Well-formed states\<close>

text \<open>
  Every entry of the stack holds a promise of the store that is still pending, no two
  entries share a promise, and while the stack is not empty \<open>closingPanel\<close> is the panel
  of the bottom entry.
\<close>

definition well_formed :: "state \<Rightarrow> bool" where
  "well_formed s \<longleftrightarrow>
     distinct (map executor (panelExecutorStack s)) \<and>
     list_all (\<lambda>ke. executor ke < length (promises s) \<and> promises s ! executor ke = Pending)
       (panelExecutorStack s) \<and>
     (panelExecutorStack s \<noteq> [] \<longrightarrow>
        closingPanel s = Some (panel (hd (panelExecutorStack s))))"


subsection \<open>The panels of the examples in \<open>README.md\<close>\<close>

text \<open>
  \<open><CustomPanel key="panel" close={close} dismiss={dismiss} />\<close> and
  \<open><SubPanel key="sub-panel" close={close} dismiss={dismiss} />\<close>: elements that keep the
  props their producer received. \<open>otherPanel\<close> is a second producer under the key of the
  first, and \<open>keylessPanel\<close> a producer that sets no key.
\<close>

definition customPanel :: register_panel_function where
  "customPanel mp = \<lparr>el_type = ''CustomPanel'', key = Some ''panel'', el_props = mp\<rparr>"

definition subPanel :: register_panel_function where
  "subPanel mp = \<lparr>el_type = ''SubPanel'', key = Some ''sub-panel'', el_props = mp\<rparr>"

definition otherPanel :: register_panel_function where
  "otherPanel mp = \<lparr>el_type = ''OtherPanel'', key = Some ''panel'', el_props = mp\<rparr>"

definition keylessPanel :: register_panel_function where
  "keylessPanel mp = \<lparr>el_type = ''CustomPanel'', key = None, el_props = mp\<rparr>"

text \<open>The provider after \<open>CustomPanel\<close> was opened, and after \<open>SubPanel\<close> was opened on it.\<close>

definition depth1 :: state where
  "depth1 = snd (open ''panel'' customPanel JUndefined mounted)"

definition depth2 :: state where
  "depth2 = snd (open ''sub-panel'' subPanel JUndefined depth1)"

definition depth3 :: state where
  "depth3 = snd (open ''sub-panel'' subPanel (JNum 7) depth2)"

text \<open>Events other than a call of an open function.\<close>

fun is_open :: "event \<Rightarrow> bool" where
  "is_open (Open g props) = True"
| "is_open e = False"

section \<open>Properties\<close>

subsection \<open>Resolving\<close>

lemma resolve_fields [simp]:
  "panelExecutorStack (resolve p v s) = panelExecutorStack s"
  "closingPanel (resolve p v s) = closingPanel s"
  "panelRegistry (resolve p v s) = panelRegistry s"
  "closures (resolve p v s) = closures s"
  "panels (resolve p v s) = panels s"
  "length (promises (resolve p v s)) = length (promises s)"
  by (simp_all add: resolve_def)

lemma resolve_promises:
  "promises (resolve p v s) ! q =
     (if q = p \<and> p < length (promises s) \<and> promises s ! p = Pending then Resolved v
      else promises s ! q)"
  by (simp add: resolve_def)

lemma resolve_pending:
  "p < length (promises s) \<Longrightarrow> promises s ! p = Pending \<Longrightarrow>
   resolve p v s = s\<lparr>promises := (promises s)[p := Resolved v], settled := settled s @ [(p, v)]\<rparr>"
  by (simp add: resolve_def)

lemma fold_resolve_fields [simp]:
  "panelExecutorStack (fold (\<lambda>ke. resolve (executor ke) JNull) xs s) = panelExecutorStack s"
  "closingPanel (fold (\<lambda>ke. resolve (executor ke) JNull) xs s) = closingPanel s"
  "panelRegistry (fold (\<lambda>ke. resolve (executor ke) JNull) xs s) = panelRegistry s"
  "closures (fold (\<lambda>ke. resolve (executor ke) JNull) xs s) = closures s"
  "panels (fold (\<lambda>ke. resolve (executor ke) JNull) xs s) = panels s"
  "length (promises (fold (\<lambda>ke. resolve (executor ke) JNull) xs s)) = length (promises s)"
  by (induction xs arbitrary: s) simp_all

lemma pending_after_resolve:
  assumes "\<forall>y\<in>set xs. executor y \<noteq> p"
    and "list_all (\<lambda>ke. executor ke < length (promises s) \<and> promises s ! executor ke = Pending) xs"
  shows "list_all (\<lambda>ke. executor ke < length (promises (resolve p v s)) \<and>
           promises (resolve p v s) ! executor ke = Pending) xs"
  using assms by (auto simp: list_all_iff resolve_promises)

lemma fold_resolve_promises:
  "distinct (map executor xs) \<Longrightarrow>
   list_all (\<lambda>ke. executor ke < length (promises s) \<and> promises s ! executor ke = Pending) xs \<Longrightarrow>
   promises (fold (\<lambda>ke. resolve (executor ke) JNull) xs s) ! q =
     (if q \<in> executor ` set xs then Resolved JNull else promises s ! q)"
proof (induction xs arbitrary: s)
  case Nil
  then show ?case by simp
next
  case (Cons x xs)
  let ?s = "resolve (executor x) JNull s"
  have d: "distinct (map executor xs)" using Cons.prems(1) by simp
  have nx: "\<forall>y\<in>set xs. executor y \<noteq> executor x"
    using Cons.prems(1) by (auto simp: image_iff)
  have a: "list_all (\<lambda>ke. executor ke < length (promises ?s) \<and>
             promises ?s ! executor ke = Pending) xs"
    using Cons.prems(2) by (intro pending_after_resolve [OF nx]) simp
  have "promises (fold (\<lambda>ke. resolve (executor ke) JNull) xs ?s) ! q =
     (if q \<in> executor ` set xs then Resolved JNull else promises ?s ! q)"
    by (rule Cons.IH [OF d a])
  then show ?case using Cons.prems(2) nx by (auto simp: resolve_promises)
qed

lemma fold_resolve_settled:
  "distinct (map executor xs) \<Longrightarrow>
   list_all (\<lambda>ke. executor ke < length (promises s) \<and> promises s ! executor ke = Pending) xs \<Longrightarrow>
   settled (fold (\<lambda>ke. resolve (executor ke) JNull) xs s) =
     settled s @ map (\<lambda>ke. (executor ke, JNull)) xs"
proof (induction xs arbitrary: s)
  case Nil
  then show ?case by simp
next
  case (Cons x xs)
  let ?s = "resolve (executor x) JNull s"
  have d: "distinct (map executor xs)" using Cons.prems(1) by simp
  have nx: "\<forall>y\<in>set xs. executor y \<noteq> executor x"
    using Cons.prems(1) by (auto simp: image_iff)
  have a: "list_all (\<lambda>ke. executor ke < length (promises ?s) \<and>
             promises ?s ! executor ke = Pending) xs"
    using Cons.prems(2) by (intro pending_after_resolve [OF nx]) simp
  have px: "executor x < length (promises s)" "promises s ! executor x = Pending"
    using Cons.prems(2) by simp_all
  have "settled ?s = settled s @ [(executor x, JNull)]"
    by (simp add: resolve_pending [OF px])
  then show ?case using Cons.IH [OF d a] by simp
qed

subsection \<open>Well-formedness is invariant\<close>

lemma well_formed_initial: "well_formed initial_state"
  by (simp add: well_formed_def initial_state_def)

lemma well_formed_useEffect: "well_formed (useEffect s) = well_formed s"
  by (simp add: well_formed_def useEffect_def)

lemma well_formed_mounted: "well_formed mounted"
  by (simp add: mounted_def well_formed_useEffect well_formed_initial)

lemma well_formed_dismiss: "well_formed (dismiss s)"
  by (simp add: well_formed_def dismiss_def)

lemma well_formed_open: "well_formed s \<Longrightarrow> well_formed (snd (open k f props s))"
  by (cases "panelExecutorStack s")
     (auto simp: well_formed_def open_def Let_def list_all_iff nth_append)

lemma close_snoc:
  "panelExecutorStack s = ys @ [x] \<Longrightarrow>
   close v s = Inr ((resolve (executor x) (or_null v) s)\<lparr>panelExecutorStack := ys\<rparr>)"
  by (simp add: close_def Let_def)

lemma well_formed_snoc:
  assumes "well_formed s" and "panelExecutorStack s = ys @ [x]"
  shows "\<forall>y\<in>set ys. executor y \<noteq> executor x"
    and "distinct (map executor ys)"
    and "executor x < length (promises s)"
    and "promises s ! executor x = Pending"
    and "list_all (\<lambda>ke. executor ke < length (promises s) \<and>
           promises s ! executor ke = Pending) ys"
  using assms by (auto simp: well_formed_def image_iff)

lemma well_formed_close:
  assumes "well_formed s" and "close v s = Inr s'"
  shows "well_formed s'"
proof (cases "panelExecutorStack s" rule: rev_cases)
  case Nil
  with assms(2) show ?thesis by (simp add: close_def)
next
  case (snoc ys x)
  have s': "s' = (resolve (executor x) (or_null v) s)\<lparr>panelExecutorStack := ys\<rparr>"
    using assms(2) close_snoc [OF snoc] by simp
  note w = well_formed_snoc [OF assms(1) snoc]
  have "list_all (\<lambda>ke. executor ke < length (promises s') \<and>
      promises s' ! executor ke = Pending) ys"
    using pending_after_resolve [OF w(1) w(5)] by (simp add: s')
  moreover have "ys \<noteq> [] \<longrightarrow> closingPanel s' = Some (panel (hd ys))"
    using assms(1) snoc by (auto simp: well_formed_def s')
  ultimately show ?thesis using w(2) by (simp add: well_formed_def s')
qed

lemma well_formed_register: "well_formed s \<Longrightarrow> well_formed (snd (register f s))"
  by (auto simp: well_formed_def register_def Let_def split: option.splits)

lemma well_formed_step: "well_formed s \<Longrightarrow> step e s = Inr s' \<Longrightarrow> well_formed s'"
proof (cases e)
  case (Register f)
  assume "well_formed s" and "step e s = Inr s'"
  then show ?thesis
    using Register well_formed_register [of s f]
    by (auto simp: well_formed_useEffect split: prod.splits sum.splits)
next
  case (Open g props)
  assume "well_formed s" and "step e s = Inr s'"
  then show ?thesis
    using Open well_formed_open [of s]
    by (cases g) (auto simp: well_formed_useEffect)
next
  case (Call c v)
  assume "well_formed s" and "step e s = Inr s'"
  then show ?thesis
    using Call well_formed_close [of s v] well_formed_dismiss [of s]
    by (cases c) (auto simp: well_formed_useEffect split: sum.splits)
next
  case Dismiss
  assume "well_formed s" and "step e s = Inr s'"
  then show ?thesis
    using Dismiss well_formed_dismiss [of s] by (auto simp: well_formed_useEffect)
qed

lemma well_formed_run: "well_formed s \<Longrightarrow> run es s = Inr s' \<Longrightarrow> well_formed s'"
proof (induction es arbitrary: s)
  case Nil
  then show ?case by simp
next
  case (Cons e es)
  then show ?case
    by (cases "step e s") (auto dest: well_formed_step)
qed

lemma well_formed_reachable: "run es mounted = Inr s \<Longrightarrow> well_formed s"
  by (rule well_formed_run [OF well_formed_mounted])

subsection \<open>Fields that the operations leave alone\<close>

lemma open_fields [simp]:
  "panelRegistry (snd (open k f props s)) = panelRegistry s"
  "closures (snd (open k f props s)) = closures s"
  by (simp_all add: open_def Let_def)

lemma close_fields:
  assumes "close v s = Inr s'"
  shows "panelRegistry s' = panelRegistry s" and "closingPanel s' = closingPanel s"
  using assms by (auto simp: close_def Let_def split: if_splits)

lemma dismiss_fields [simp]:
  "panelRegistry (dismiss s) = panelRegistry s"
  "closingPanel (dismiss s) = closingPanel s"
  "panelExecutorStack (dismiss s) = []"
  by (simp_all add: dismiss_def)

lemma useEffect_fields [simp]:
  "panelRegistry (useEffect s) = panelRegistry s"
  "closingPanel (useEffect s) = closingPanel s"
  "panelExecutorStack (useEffect s) = panelExecutorStack s"
  "promises (useEffect s) = promises s"
  "panels (useEffect s) = activePanels s"
  by (simp_all add: useEffect_def)

lemma register_fields:
  "closingPanel (snd (register f s)) = closingPanel s"
  "panelExecutorStack (snd (register f s)) = panelExecutorStack s"
  "promises (snd (register f s)) = promises s"
  by (simp_all add: register_def Let_def split: option.splits)

subsection \<open>The registry only grows\<close>

lemma registry_register:
  "panelRegistry s k = Some g \<Longrightarrow> panelRegistry (snd (register f s)) k = Some g"
  by (auto simp: register_def Let_def split: option.splits)

lemma registry_step:
  assumes "panelRegistry s k = Some g" and "step e s = Inr s'"
  shows "panelRegistry s' k = Some g"
proof (cases e)
  case (Register f)
  then show ?thesis
    using assms registry_register [of s k g f]
    by (auto split: prod.splits sum.splits)
next
  case (Open h props)
  then show ?thesis using assms by (cases h) auto
next
  case (Call c v)
  then show ?thesis
    using assms by (cases c) (auto split: sum.splits dest: close_fields(1))
next
  case Dismiss
  then show ?thesis using assms by auto
qed

lemma registry_run:
  "panelRegistry s k = Some g \<Longrightarrow> run es s = Inr s' \<Longrightarrow> panelRegistry s' k = Some g"
proof (induction es arbitrary: s)
  case Nil
  then show ?case by simp
next
  case (Cons e es)
  then show ?case
    by (cases "step e s") (auto dest: registry_step)
qed

lemma register_present:
  "panelRegistry s k = Some g \<Longrightarrow> key (f placeholder) = Some k \<Longrightarrow> k \<noteq> [] \<Longrightarrow>
   register f s = (Inr g, s\<lparr>panelRegistry := (panelRegistry s)(k \<mapsto> g)\<rparr>)"
  by (simp add: register_def)

lemma register_absent:
  "panelRegistry s k = None \<Longrightarrow> key (f placeholder) = Some k \<Longrightarrow> k \<noteq> [] \<Longrightarrow>
   register f s =
     (Inr (OpenPanelFunction (closures s) k f),
      s\<lparr>panelRegistry := (panelRegistry s)(k \<mapsto> OpenPanelFunction (closures s) k f),
        closures := Suc (closures s)\<rparr>)"
  by (simp add: register_def Let_def)

lemma register_result:
  assumes "key (f placeholder) = Some k" and "k \<noteq> []" and "register f s = (r, s')"
  shows "\<exists>g. r = Inr g \<and> panelRegistry s' k = Some g"
proof (cases "panelRegistry s k")
  case None
  then show ?thesis using assms register_absent [of s k f] by auto
next
  case (Some g)
  then show ?thesis using assms register_present [of s k g f] by auto
qed

subsection \<open>Events other than a call of an open function\<close>

lemma step_panels: "step e s = Inr s' \<Longrightarrow> panels s' = activePanels s'"
  by (cases e) (auto simp: useEffect_def activePanels_def split: prod.splits sum.splits)

lemma step_closing:
  assumes "\<not> is_open e" and "step e s = Inr s'"
  shows "closingPanel s' = closingPanel s"
proof (cases e)
  case (Register f)
  then show ?thesis
    using assms register_fields(1) [of f s] by (auto split: prod.splits sum.splits)
next
  case (Open h props)
  then show ?thesis using assms by simp
next
  case (Call c v)
  show ?thesis
  proof (cases c)
    case (CloseFn tag)
    then obtain t where t: "close v s = Inr t" "s' = useEffect t"
      using assms(2) Call by (auto split: sum.splits)
    then show ?thesis using close_fields(2) [OF t(1)] by simp
  next
    case DismissFn
    then show ?thesis using assms(2) Call by auto
  qed
next
  case Dismiss
  then show ?thesis using assms by auto
qed

lemma step_no_open:
  assumes "panelExecutorStack s = []" and "\<not> is_open e" and "step e s = Inr s'"
  shows "panelExecutorStack s' = [] \<and> closingPanel s' = closingPanel s \<and>
         panels s' = [closingPanel s]"
proof (cases e)
  case (Register f)
  then show ?thesis
    using assms register_fields [of f s]
    by (auto simp: activePanels_def split: prod.splits sum.splits)
next
  case (Open h props)
  then show ?thesis using assms by simp
next
  case (Call c v)
  then show ?thesis
    using assms by (cases c) (auto simp: close_def activePanels_def)
next
  case Dismiss
  then show ?thesis using assms by (auto simp: activePanels_def)
qed

lemma run_no_open:
  "panelExecutorStack s = [] \<Longrightarrow> \<forall>e\<in>set es. \<not> is_open e \<Longrightarrow> run es s = Inr s' \<Longrightarrow>
   panelExecutorStack s' = [] \<and> closingPanel s' = closingPanel s \<and>
   (es \<noteq> [] \<longrightarrow> panels s' = [closingPanel s])"
proof (induction es arbitrary: s)
  case Nil
  then show ?case by simp
next
  case (Cons e es)
  show ?case
  proof (cases "step e s")
    case (Inl err)
    with Cons.prems show ?thesis by simp
  next
    case (Inr t)
    have t: "panelExecutorStack t = [] \<and> closingPanel t = closingPanel s \<and>
         panels t = [closingPanel s]"
      using step_no_open [OF Cons.prems(1) _ Inr] Cons.prems(2) by simp
    have r: "run es t = Inr s'" using Cons.prems(3) Inr by simp
    have "panelExecutorStack s' = [] \<and> closingPanel s' = closingPanel t \<and>
       (es \<noteq> [] \<longrightarrow> panels s' = [closingPanel t])"
      using Cons.IH [of t] t Cons.prems(2) r by simp
    then show ?thesis using t r by (cases es) auto
  qed
qed

subsection \<open>The example states\<close>

lemma mounted_state:
  "mounted = \<lparr>panelRegistry = Map.empty, panelExecutorStack = [], closingPanel = None,
      panels = [None], promises = [], settled = [], closures = 0\<rparr>"
  by (simp add: mounted_def useEffect_def activePanels_def initial_state_def)

lemma demo_states:
  "depth1 = \<lparr>panelRegistry = Map.empty,
      panelExecutorStack =
        [\<lparr>panel = customPanel \<lparr>mp_close = CloseFn (Some 0), mp_dismiss = DismissFn, mp_props = JUndefined\<rparr>,
          executor = 0\<rparr>],
      closingPanel = Some (customPanel \<lparr>mp_close = CloseFn (Some 0), mp_dismiss = DismissFn, mp_props = JUndefined\<rparr>),
      panels = [None], promises = [Pending], settled = [], closures = 0\<rparr>"
  "depth2 = \<lparr>panelRegistry = Map.empty,
      panelExecutorStack =
        [\<lparr>panel = customPanel \<lparr>mp_close = CloseFn (Some 0), mp_dismiss = DismissFn, mp_props = JUndefined\<rparr>,
          executor = 0\<rparr>,
         \<lparr>panel = subPanel \<lparr>mp_close = CloseFn (Some 1), mp_dismiss = DismissFn, mp_props = JUndefined\<rparr>,
          executor = 1\<rparr>],
      closingPanel = Some (customPanel \<lparr>mp_close = CloseFn (Some 0), mp_dismiss = DismissFn, mp_props = JUndefined\<rparr>),
      panels = [None], promises = [Pending, Pending], settled = [], closures = 0\<rparr>"
  "depth3 = \<lparr>panelRegistry = Map.empty,
      panelExecutorStack =
        [\<lparr>panel = customPanel \<lparr>mp_close = CloseFn (Some 0), mp_dismiss = DismissFn, mp_props = JUndefined\<rparr>,
          executor = 0\<rparr>,
         \<lparr>panel = subPanel \<lparr>mp_close = CloseFn (Some 1), mp_dismiss = DismissFn, mp_props = JUndefined\<rparr>,
          executor = 1\<rparr>,
         \<lparr>panel = subPanel \<lparr>mp_close = CloseFn (Some 2), mp_dismiss = DismissFn, mp_props = JNum 7\<rparr>,
          executor = 2\<rparr>],
      closingPanel = Some (customPanel \<lparr>mp_close = CloseFn (Some 0), mp_dismiss = DismissFn, mp_props = JUndefined\<rparr>),
      panels = [None], promises = [Pending, Pending, Pending], settled = [], closures = 0\<rparr>"
  by (simp_all add: depth3_def depth2_def depth1_def open_def Let_def mounted_def useEffect_def
        activePanels_def initial_state_def numeral_2_eq_2)

lemma well_formed_demo: "well_formed depth1" "well_formed depth2" "well_formed depth3"
  unfolding depth3_def depth2_def depth1_def
  by (intro well_formed_open well_formed_mounted)+


lemma demo_run:
  "run [Open (OpenPanelFunction 0 ''panel'' customPanel) JUndefined,
        Open (OpenPanelFunction 1 ''sub-panel'' subPanel) JUndefined] mounted =
     Inr (useEffect depth2)"
  by (simp add: depth2_def depth1_def open_def Let_def mounted_state useEffect_def
        activePanels_def)

section \<open>The claims\<close>



text \<open>
  Claim C2. On a well-formed stack of any depth, the empty one included, \<open>dismiss\<close>
  resolves the promise of every entry with \<open>null\<close>, settles them from the bottom of the
  stack to its top, touches no other promise, and leaves the stack empty. On the empty
  stack it changes nothing.
\<close>

theorem dismiss_resolves_all:
  assumes "well_formed s"
  shows "panelExecutorStack (dismiss s) = [] \<and>
     (\<forall>ke\<in>set (panelExecutorStack s). promises (dismiss s) ! executor ke = Resolved JNull) \<and>
     (\<forall>q. q \<notin> executor ` set (panelExecutorStack s) \<longrightarrow>
        promises (dismiss s) ! q = promises s ! q) \<and>
     settled (dismiss s) =
       settled s @ map (\<lambda>ke. (executor ke, JNull)) (panelExecutorStack s) \<and>
     (panelExecutorStack s = [] \<longrightarrow> dismiss s = s)"
proof -
  have d: "distinct (map executor (panelExecutorStack s))"
    and p: "list_all (\<lambda>ke. executor ke < length (promises s) \<and>
              promises s ! executor ke = Pending) (panelExecutorStack s)"
    using assms by (simp_all add: well_formed_def)
  have "\<And>q. promises (dismiss s) ! q =
      (if q \<in> executor ` set (panelExecutorStack s) then Resolved JNull else promises s ! q)"
    using fold_resolve_promises [OF d p] by (simp add: dismiss_def)
  moreover have "settled (dismiss s) =
       settled s @ map (\<lambda>ke. (executor ke, JNull)) (panelExecutorStack s)"
    using fold_resolve_settled [OF d p] by (simp add: dismiss_def)
  moreover have "panelExecutorStack s = [] \<longrightarrow> dismiss s = s"
    by (simp add: dismiss_def)
  ultimately show ?thesis by simp
qed

theorem dismiss_resolves_all_witness:
  "well_formed depth3 \<and> length (panelExecutorStack depth3) = 3 \<and>
   panelExecutorStack (dismiss depth3) = [] \<and>
   promises (dismiss depth3) ! 0 = Resolved JNull \<and>
   promises (dismiss depth3) ! 1 = Resolved JNull \<and>
   promises (dismiss depth3) ! 2 = Resolved JNull \<and>
   settled (dismiss depth3) = [(0, JNull), (1, JNull), (2, JNull)] \<and>
   well_formed mounted \<and> panelExecutorStack mounted = [] \<and> dismiss mounted = mounted"
  using dismiss_resolves_all [OF well_formed_demo(3)] dismiss_resolves_all [OF well_formed_mounted]
    well_formed_demo(3) well_formed_mounted
  by (simp add: demo_states mounted_state)




text \<open>
  Claim C4, as stated, fails: \<open>closingPanel\<close> is written by \<open>open\<close> only, when the
  stack it pushes onto is empty, so after \<open>dismiss\<close> of a stack of depth 2 it holds the
  panel of the bottom entry and not the panel that was on top.
\<close>

theorem transition_slot_top_counterexample:
  "run [Open (OpenPanelFunction 0 ''panel'' customPanel) JUndefined,
        Open (OpenPanelFunction 1 ''sub-panel'' subPanel) JUndefined] mounted =
     Inr (useEffect depth2) \<and>
   panel (last (panelExecutorStack (useEffect depth2))) =
     subPanel \<lparr>mp_close = CloseFn (Some 1), mp_dismiss = DismissFn, mp_props = JUndefined\<rparr> \<and>
   step Dismiss (useEffect depth2) = Inr (useEffect (dismiss (useEffect depth2))) \<and>
   panelExecutorStack (useEffect (dismiss (useEffect depth2))) = [] \<and>
   closingPanel (useEffect (dismiss (useEffect depth2))) =
     Some (customPanel \<lparr>mp_close = CloseFn (Some 0), mp_dismiss = DismissFn, mp_props = JUndefined\<rparr>) \<and>
   closingPanel (useEffect (dismiss (useEffect depth2))) \<noteq>
     Some (panel (last (panelExecutorStack (useEffect depth2))))"
  using demo_run
  by (simp add: demo_states customPanel_def subPanel_def)

text \<open>
  Claim C4, amended. When a well-formed stack that is not empty becomes empty, by
  \<open>close\<close> of its last entry or by \<open>dismiss\<close> at any depth, \<open>closingPanel\<close> holds the
  panel of the bottom entry of that stack, which is the panel that was on top when the
  depth was 1, as it always is when \<open>close\<close> empties the stack. That panel is the only
  element of \<open>panels\<close> and of the derived array, and it stays so over every later event
  until an open function is called.
\<close>

theorem transition_slot_after_emptying:
  assumes "well_formed s" and "panelExecutorStack s \<noteq> []"
    and "e = Dismiss \<or> e = Call c v"
    and "step e s = Inr s'" and "panelExecutorStack s' = []"
    and "\<forall>x\<in>set es. \<not> is_open x" and "run es s' = Inr s''"
  shows "panelExecutorStack s'' = [] \<and>
     closingPanel s'' = Some (panel (hd (panelExecutorStack s))) \<and>
     panels s'' = [Some (panel (hd (panelExecutorStack s)))] \<and>
     activePanels s'' = [Some (panel (hd (panelExecutorStack s)))] \<and>
     (length (panelExecutorStack s) = 1 \<longrightarrow>
        hd (panelExecutorStack s) = last (panelExecutorStack s)) \<and>
     (\<forall>tag. e = Call (CloseFn tag) v \<longrightarrow> length (panelExecutorStack s) = 1)"
proof -
  have slot: "closingPanel s = Some (panel (hd (panelExecutorStack s)))"
    using assms(1,2) by (simp add: well_formed_def)
  have cl: "\<forall>tag. e = Call (CloseFn tag) v \<longrightarrow> length (panelExecutorStack s) = 1"
  proof (intro allI impI)
    fix tag assume "e = Call (CloseFn tag) v"
    then have "butlast (panelExecutorStack s) = []"
      using assms(2,4,5) by (auto simp: close_def Let_def split: sum.splits if_splits)
    then show "length (panelExecutorStack s) = 1"
      using assms(2) by (cases "panelExecutorStack s" rule: rev_cases) auto
  qed
  have one: "length (panelExecutorStack s) = 1 \<longrightarrow>
        hd (panelExecutorStack s) = last (panelExecutorStack s)"
    by (cases "panelExecutorStack s") auto
  have "\<not> is_open e" using assms(3) by auto
  then have "closingPanel s' = closingPanel s"
    using assms(4) by (rule step_closing)
  moreover have "panels s' = activePanels s'"
    using assms(4) by (rule step_panels)
  ultimately have s': "closingPanel s' = Some (panel (hd (panelExecutorStack s)))"
    "panels s' = [Some (panel (hd (panelExecutorStack s)))]"
    using slot assms(5) by (simp_all add: activePanels_def)
  have r: "panelExecutorStack s'' = [] \<and> closingPanel s'' = closingPanel s' \<and>
     (es \<noteq> [] \<longrightarrow> panels s'' = [closingPanel s'])"
    by (rule run_no_open [OF assms(5,6,7)])
  have "panels s'' = [Some (panel (hd (panelExecutorStack s)))]"
    using r s' assms(7) by (cases es) auto
  then show ?thesis using r s' cl one by (simp add: activePanels_def)
qed

theorem transition_slot_after_emptying_witness:
  "well_formed depth2 \<and> panelExecutorStack depth2 \<noteq> [] \<and>
   step Dismiss depth2 = Inr (useEffect (dismiss depth2)) \<and>
   panelExecutorStack (useEffect (dismiss depth2)) = [] \<and>
   \<not> is_open (Register subPanel) \<and> \<not> is_open Dismiss \<and>
   (\<exists>t. run [Register subPanel, Dismiss] (useEffect (dismiss depth2)) = Inr t \<and>
      panelExecutorStack t = [] \<and>
      closingPanel t =
        Some (customPanel \<lparr>mp_close = CloseFn (Some 0), mp_dismiss = DismissFn, mp_props = JUndefined\<rparr>) \<and>
      panels t =
        [Some (customPanel \<lparr>mp_close = CloseFn (Some 0), mp_dismiss = DismissFn, mp_props = JUndefined\<rparr>)]) \<and>
   well_formed depth1 \<and> length (panelExecutorStack depth1) = 1 \<and>
   (\<exists>t. step (Call (CloseFn (Some 0)) (JBool True)) depth1 = Inr t \<and>
      panelExecutorStack t = [] \<and>
      closingPanel t = Some (panel (last (panelExecutorStack depth1))) \<and>
      panels t = [Some (panel (last (panelExecutorStack depth1)))])"
proof -
  have n: "panelExecutorStack depth2 \<noteq> []" by (simp add: demo_states)
  have st: "step Dismiss depth2 = Inr (useEffect (dismiss depth2))" by simp
  have e: "panelExecutorStack (useEffect (dismiss depth2)) = []" by simp
  have no: "\<forall>x\<in>set [Register subPanel, Dismiss]. \<not> is_open x" by simp
  obtain g u where ru: "register subPanel (useEffect (dismiss depth2)) = (Inr g, u)"
    using register_result [of subPanel "''sub-panel''" "useEffect (dismiss depth2)"]
    by (cases "register subPanel (useEffect (dismiss depth2))") (auto simp: subPanel_def)
  then obtain t where r: "run [Register subPanel, Dismiss] (useEffect (dismiss depth2)) = Inr t"
    by simp
  have h: "hd (panelExecutorStack depth2) =
     \<lparr>panel = customPanel \<lparr>mp_close = CloseFn (Some 0), mp_dismiss = DismissFn, mp_props = JUndefined\<rparr>,
      executor = 0\<rparr>"
    by (simp add: demo_states)
  have a: "\<exists>t. run [Register subPanel, Dismiss] (useEffect (dismiss depth2)) = Inr t \<and>
      panelExecutorStack t = [] \<and>
      closingPanel t =
        Some (customPanel \<lparr>mp_close = CloseFn (Some 0), mp_dismiss = DismissFn, mp_props = JUndefined\<rparr>) \<and>
      panels t =
        [Some (customPanel \<lparr>mp_close = CloseFn (Some 0), mp_dismiss = DismissFn, mp_props = JUndefined\<rparr>)]"
    using transition_slot_after_emptying [OF well_formed_demo(2) n _ st e no r, of DismissFn JUndefined]
      r h
    by simp
  have n1: "panelExecutorStack depth1 \<noteq> []" and l1: "length (panelExecutorStack depth1) = 1"
    by (simp_all add: demo_states)
  let ?t = "useEffect ((resolve 0 (JBool True) depth1)\<lparr>panelExecutorStack := []\<rparr>)"
  have st1: "step (Call (CloseFn (Some 0)) (JBool True)) depth1 = Inr ?t"
    by (simp add: demo_states close_def Let_def or_null_def)
  have e1: "panelExecutorStack ?t = []" by simp
  have r1: "run [] ?t = Inr ?t" by simp
  have b: "\<exists>t. step (Call (CloseFn (Some 0)) (JBool True)) depth1 = Inr t \<and>
      panelExecutorStack t = [] \<and>
      closingPanel t = Some (panel (last (panelExecutorStack depth1))) \<and>
      panels t = [Some (panel (last (panelExecutorStack depth1)))]"
    using transition_slot_after_emptying [OF well_formed_demo(1) n1 _ st1 e1 _ r1,
        of "CloseFn (Some 0)" "JBool True"] st1 l1
    by simp
  show ?thesis
    using well_formed_demo(1,2) n st e a b l1 by simp
qed

text \<open>
  Claim C5, as stated, fails: the function \<open>close\<close> that a producer receives is
  \<open>(value) => close(value)\<close>, which pops whatever entry is on top. With \<open>SubPanel\<close>
  open on \<open>CustomPanel\<close>, the \<open>close\<close> handed to \<open>CustomPanel\<close> resolves the promise of
  \<open>SubPanel\<close>.
\<close>

theorem bound_close_own_future_counterexample:
  "run [Open (OpenPanelFunction 0 ''panel'' customPanel) JUndefined,
        Open (OpenPanelFunction 1 ''sub-panel'' subPanel) JUndefined] mounted =
     Inr (useEffect depth2) \<and>
   hd (panelExecutorStack (useEffect depth2)) =
     \<lparr>panel = customPanel \<lparr>mp_close = CloseFn (Some 0), mp_dismiss = DismissFn, mp_props = JUndefined\<rparr>,
      executor = 0\<rparr> \<and>
   mp_close (el_props (panel (hd (panelExecutorStack (useEffect depth2))))) = CloseFn (Some 0) \<and>
   promises (useEffect depth2) = [Pending, Pending] \<and>
   map_sum id promises (call (CloseFn (Some 0)) (JStr ''saved'') (useEffect depth2)) =
     Inr [Pending, Resolved (JStr ''saved'')]"
  using demo_run
  by (simp add: demo_states customPanel_def close_def resolve_def or_null_def Let_def)

text \<open>
  Claim C5, amended. On a well-formed stack, the \<open>close\<close> handed to the producer of any
  entry resolves the promise of the current top entry and no other promise: the
  entry's own promise when the entry is the top, and the promise of the top entry
  otherwise. An entry that is not the top keeps its promise pending, so it cannot
  resolve its own promise out of order.
\<close>

theorem bound_close_closes_top:
  assumes "well_formed s" and "ke \<in> set (panelExecutorStack s)"
  shows "\<exists>s'. call (CloseFn (Some (executor ke))) v s = Inr s' \<and>
     panelExecutorStack s' = butlast (panelExecutorStack s) \<and>
     promises s' ! executor (last (panelExecutorStack s)) = Resolved (or_null v) \<and>
     (\<forall>q. q \<noteq> executor (last (panelExecutorStack s)) \<longrightarrow>
        promises s' ! q = promises s ! q) \<and>
     (ke = last (panelExecutorStack s) \<longrightarrow> promises s' ! executor ke = Resolved (or_null v)) \<and>
     (ke \<noteq> last (panelExecutorStack s) \<longrightarrow> promises s' ! executor ke = Pending)"
proof -
  obtain ys x where snoc: "panelExecutorStack s = ys @ [x]"
    using assms(2) by (cases "panelExecutorStack s" rule: rev_cases) auto
  note w = well_formed_snoc [OF assms(1) snoc]
  let ?s' = "(resolve (executor x) (or_null v) s)\<lparr>panelExecutorStack := ys\<rparr>"
  have top: "promises ?s' ! executor x = Resolved (or_null v)"
    using w(3,4) by (simp add: resolve_promises)
  have rest: "\<forall>q. q \<noteq> executor x \<longrightarrow> promises ?s' ! q = promises s ! q"
    by (simp add: resolve_promises)
  have "ke \<noteq> x \<longrightarrow> promises ?s' ! executor ke = Pending"
  proof
    assume "ke \<noteq> x"
    then have k: "ke \<in> set ys" using assms(2) snoc by auto
    then have "executor ke \<noteq> executor x" using w(1) by blast
    moreover have "promises s ! executor ke = Pending"
      using w(5) k by (simp add: list_all_iff)
    ultimately show "promises ?s' ! executor ke = Pending" using rest by simp
  qed
  then show ?thesis
    using close_snoc [OF snoc, of v] snoc top rest by auto
qed

theorem bound_close_closes_top_witness:
  "well_formed depth2 \<and>
   \<lparr>panel = customPanel \<lparr>mp_close = CloseFn (Some 0), mp_dismiss = DismissFn, mp_props = JUndefined\<rparr>,
    executor = 0\<rparr> \<in> set (panelExecutorStack depth2) \<and>
   executor (last (panelExecutorStack depth2)) = 1 \<and>
   (\<exists>s'. call (CloseFn (Some 0)) (JStr ''saved'') depth2 = Inr s' \<and>
      promises s' ! 1 = Resolved (JStr ''saved'') \<and> promises s' ! 0 = Pending)"
proof -
  let ?ke = "\<lparr>panel = customPanel \<lparr>mp_close = CloseFn (Some 0), mp_dismiss = DismissFn,
                 mp_props = JUndefined\<rparr>, executor = 0\<rparr>"
  have m: "?ke \<in> set (panelExecutorStack depth2)"
    and t: "executor (last (panelExecutorStack depth2)) = 1"
    and n: "?ke \<noteq> last (panelExecutorStack depth2)"
    by (simp_all add: demo_states)
  show ?thesis
    using bound_close_closes_top [OF well_formed_demo(2) m, of "JStr ''saved''"]
      well_formed_demo(2) m t n
    by (auto simp: or_null_def)
qed

text \<open>
  Claim C6. When two producers yield elements with the same non-empty key, the second
  call of \<open>register\<close> returns the very open function that the first call returned and
  stored, whatever events happened in between.
\<close>

theorem register_twice_same_function:
  assumes "key (f1 placeholder) = Some k" and "key (f2 placeholder) = Some k" and "k \<noteq> []"
    and "register f1 s = (r1, s1)" and "run es s1 = Inr s2" and "register f2 s2 = (r2, s3)"
  shows "\<exists>g. r1 = Inr g \<and> r2 = Inr g \<and> panelRegistry s1 k = Some g \<and>
           panelRegistry s3 k = Some g"
proof -
  obtain g where g: "r1 = Inr g" "panelRegistry s1 k = Some g"
    using register_result [OF assms(1,3,4)] by blast
  have "panelRegistry s2 k = Some g"
    by (rule registry_run [OF g(2) assms(5)])
  then have "register f2 s2 = (Inr g, s2\<lparr>panelRegistry := (panelRegistry s2)(k \<mapsto> g)\<rparr>)"
    using assms(2,3) register_present [of s2 k g f2] by simp
  then show ?thesis using g assms(6) by auto
qed

theorem register_twice_same_function_witness:
  "key (customPanel placeholder) = Some ''panel'' \<and> key (otherPanel placeholder) = Some ''panel'' \<and>
   run [Dismiss] (snd (register customPanel mounted)) =
     Inr (useEffect (dismiss (snd (register customPanel mounted)))) \<and>
   fst (register customPanel mounted) = Inr (OpenPanelFunction 0 ''panel'' customPanel) \<and>
   fst (register otherPanel (useEffect (dismiss (snd (register customPanel mounted))))) =
     fst (register customPanel mounted)"
proof -
  let ?s1 = "snd (register customPanel mounted)"
  let ?s2 = "useEffect (dismiss ?s1)"
  have k: "key (customPanel placeholder) = Some ''panel''"
    "key (otherPanel placeholder) = Some ''panel''" "''panel'' \<noteq> []"
    by (simp_all add: customPanel_def otherPanel_def)
  have r1: "register customPanel mounted = (fst (register customPanel mounted), ?s1)"
    by simp
  have r: "run [Dismiss] ?s1 = Inr ?s2" by simp
  have r2: "register otherPanel ?s2 = (fst (register otherPanel ?s2), snd (register otherPanel ?s2))"
    by simp
  have v: "fst (register customPanel mounted) = Inr (OpenPanelFunction 0 ''panel'' customPanel)"
    by (simp add: register_def k mounted_state Let_def)
  show ?thesis
    using register_twice_same_function [OF k r1 r r2] k r v by auto
qed

text \<open>
  Claim C7. When the element a producer yields for the placeholder props carries no
  key, \<open>register\<close> throws and leaves the state, the registry included, as it was.
\<close>

theorem register_without_key:
  "key (f placeholder) = None \<Longrightarrow> register f s = (Inl MissingPanelKeyError, s)"
  by (simp add: register_def)

theorem register_without_key_witness:
  "key (keylessPanel placeholder) = None \<and>
   register keylessPanel mounted = (Inl MissingPanelKeyError, mounted) \<and>
   panelRegistry (snd (register keylessPanel mounted)) = panelRegistry mounted"
  using register_without_key [of keylessPanel mounted]
  by (simp add: keylessPanel_def)

text \<open>
  Claim C8. With the stack empty, \<open>close\<close> is not guarded: it throws a \<open>TypeError\<close>,
  called directly or through a function handed to a producer.
\<close>

theorem close_empty_stack_faults:
  "panelExecutorStack s = [] \<Longrightarrow>
   close v s = Inl TypeError \<and> call (CloseFn tag) v s = Inl TypeError \<and>
   step (Call (CloseFn tag) v) s = Inl TypeError"
  by (simp add: close_def)

theorem close_empty_stack_faults_witness:
  "panelExecutorStack mounted = [] \<and>
   close JUndefined mounted = Inl TypeError \<and> call (CloseFn None) JUndefined mounted = Inl TypeError \<and>
   step (Call (CloseFn None) JUndefined) mounted = Inl TypeError"
proof -
  have e: "panelExecutorStack mounted = []"
    by (simp add: mounted_def useEffect_def initial_state_def)
  show ?thesis using e close_empty_stack_faults [OF e, of JUndefined None] by simp
qed

text \<open>
  Claim C9. The derived array holds the panel of every entry of the stack, bottom to
  top, when the stack is not empty, and otherwise \<open>closingPanel\<close> as its only element.
  While \<open>closingPanel\<close> is still \<open>undefined\<close> that element is no panel, so the array
  holds no panel at all; this is so in every state reached from the mounted provider
  before the first call of an open function. The effect stores the derived array in
  \<open>panels\<close>.
\<close>

theorem visible_panels:
  "(panelExecutorStack s \<noteq> [] \<longrightarrow>
      activePanels s = map (\<lambda>ke. Some (panel ke)) (panelExecutorStack s)) \<and>
   (panelExecutorStack s = [] \<longrightarrow> activePanels s = [closingPanel s]) \<and>
   (panelExecutorStack s = [] \<and> closingPanel s = None \<longrightarrow>
      (\<forall>p. Some p \<notin> set (activePanels s))) \<and>
   panels (useEffect s) = activePanels s \<and>
   ((\<forall>e\<in>set es. \<not> is_open e) \<and> run es mounted = Inr t \<longrightarrow>
      closingPanel t = None \<and> activePanels t = [None])"
proof -
  have m: "panelExecutorStack mounted = []" "closingPanel mounted = None"
    by (simp_all add: mounted_def initial_state_def)
  have "(\<forall>e\<in>set es. \<not> is_open e) \<and> run es mounted = Inr t \<longrightarrow>
      closingPanel t = None \<and> activePanels t = [None]"
    using run_no_open [OF m(1), of es t] m(2) by (auto simp: activePanels_def)
  then show ?thesis by (simp add: activePanels_def)
qed

theorem visible_panels_witness:
  "panelExecutorStack depth2 \<noteq> [] \<and>
   activePanels depth2 =
     [Some (customPanel \<lparr>mp_close = CloseFn (Some 0), mp_dismiss = DismissFn, mp_props = JUndefined\<rparr>),
      Some (subPanel \<lparr>mp_close = CloseFn (Some 1), mp_dismiss = DismissFn, mp_props = JUndefined\<rparr>)] \<and>
   panelExecutorStack (dismiss depth2) = [] \<and>
   activePanels (dismiss depth2) =
     [Some (customPanel \<lparr>mp_close = CloseFn (Some 0), mp_dismiss = DismissFn, mp_props = JUndefined\<rparr>)] \<and>
   panelExecutorStack mounted = [] \<and> closingPanel mounted = None \<and>
   (\<forall>p. Some p \<notin> set (activePanels mounted)) \<and>
   \<not> is_open Dismiss \<and>
   run [Dismiss] mounted = Inr (useEffect (dismiss mounted)) \<and>
   activePanels (useEffect (dismiss mounted)) = [None]"
proof -
  have r: "run [Dismiss] mounted = Inr (useEffect (dismiss mounted))" by simp
  have n: "\<forall>e\<in>set [Dismiss]. \<not> is_open e" by simp
  show ?thesis
    using visible_panels [of depth2 "[]" mounted]
      visible_panels [of "dismiss depth2" "[]" mounted]
      visible_panels [of mounted "[Dismiss]" "useEffect (dismiss mounted)"] r n
    by (simp add: demo_states mounted_state)
qed

text \<open>
  Claim C10. After a first registration of a producer under a key that was absent,
  registering another producer under that key returns the open function of the first
  registration, which the registry keeps. That function is closed over the first
  producer: whenever it is called, the entry it pushes holds the element that the first
  producer yields.
\<close>

theorem reregistration_keeps_first_producer:
  assumes "key (f1 placeholder) = Some k" and "k \<noteq> []" and "panelRegistry s k = None"
    and "register f1 s = (r1, s1)" and "run es s1 = Inr s2"
    and "key (f2 placeholder) = Some k" and "register f2 s2 = (r2, s3)"
  shows "r1 = Inr (OpenPanelFunction (closures s) k f1) \<and> r2 = r1 \<and>
     panelRegistry s3 k = Some (OpenPanelFunction (closures s) k f1) \<and>
     (\<forall>g props t. r2 = Inr g \<longrightarrow>
        call_open g props t = open k f1 props t \<and>
        last (panelExecutorStack (snd (call_open g props t))) =
          \<lparr>panel = f1 \<lparr>mp_close = CloseFn (Some (length (promises t))),
                        mp_dismiss = DismissFn, mp_props = props\<rparr>,
           executor = length (promises t)\<rparr>)"
proof -
  let ?g = "OpenPanelFunction (closures s) k f1"
  have r1: "r1 = Inr ?g" and s1: "panelRegistry s1 k = Some ?g"
    using register_absent [of s k f1] assms(1,2,3,4) by auto
  have "panelRegistry s2 k = Some ?g"
    by (rule registry_run [OF s1 assms(5)])
  then have "register f2 s2 = (Inr ?g, s2\<lparr>panelRegistry := (panelRegistry s2)(k \<mapsto> ?g)\<rparr>)"
    using assms(6,2) register_present [of s2 k ?g f2] by simp
  then have r2: "r2 = Inr ?g" and s3: "panelRegistry s3 k = Some ?g"
    using assms(7) by auto
  have "last (panelExecutorStack (snd (open k f1 props t))) =
          \<lparr>panel = f1 \<lparr>mp_close = CloseFn (Some (length (promises t))),
                        mp_dismiss = DismissFn, mp_props = props\<rparr>,
           executor = length (promises t)\<rparr>" for props t
    by (simp add: open_def Let_def)
  then show ?thesis using r1 r2 s3 by simp
qed

theorem reregistration_keeps_first_producer_witness:
  "key (customPanel placeholder) = Some ''panel'' \<and> key (otherPanel placeholder) = Some ''panel'' \<and>
   panelRegistry mounted ''panel'' = None \<and>
   fst (register customPanel mounted) = Inr (OpenPanelFunction 0 ''panel'' customPanel) \<and>
   fst (register otherPanel (snd (register customPanel mounted))) =
     Inr (OpenPanelFunction 0 ''panel'' customPanel) \<and>
   panel (last (panelExecutorStack
     (snd (call_open (OpenPanelFunction 0 ''panel'' customPanel) (JNum 7) mounted)))) =
     customPanel \<lparr>mp_close = CloseFn (Some 0), mp_dismiss = DismissFn, mp_props = JNum 7\<rparr> \<and>
   el_type (panel (last (panelExecutorStack
     (snd (call_open (OpenPanelFunction 0 ''panel'' customPanel) (JNum 7) mounted))))) =
     ''CustomPanel''"
proof -
  let ?s1 = "snd (register customPanel mounted)"
  have k: "key (customPanel placeholder) = Some ''panel''" "''panel'' \<noteq> []"
    and k2: "key (otherPanel placeholder) = Some ''panel''"
    by (simp_all add: customPanel_def otherPanel_def)
  have a: "panelRegistry mounted ''panel'' = None" by (simp add: mounted_state)
  have r1: "register customPanel mounted = (fst (register customPanel mounted), ?s1)"
    by simp
  have r: "run [] ?s1 = Inr ?s1" by simp
  have r2: "register otherPanel ?s1 = (fst (register otherPanel ?s1), snd (register otherPanel ?s1))"
    by simp
  have c: "closures mounted = 0" "promises mounted = []" by (simp_all add: mounted_state)
  show ?thesis
    using reregistration_keeps_first_producer [OF k a r1 r k2 r2] k k2 a c
    by (auto simp: customPanel_def)
qed

end
